theory Spec2Isabelle
  imports
    Complex_Main
    "HOL-Library.Word"
    "HOL-Library.Char_ord"
    "HOL-Library.List_Lexorder"
    "HOL-Library.Product_Lexorder"
begin

unbundle bit_operations_syntax

section \<open>Python strings and the regular expressions of the repository\<close>

text \<open>
  A Python \<^verbatim>\<open>str\<close> is modelled as a \<^typ>\<open>string\<close>, one \<^typ>\<open>char\<close> per code point.
  The character tables below are Python's on the ASCII range; a \<^typ>\<open>char\<close> above 127
  is a symbol that is neither a letter, a digit nor white space.
\<close>

definition is_digit :: "char \<Rightarrow> bool" where
  "is_digit c = (c \<in> set ''0123456789'')"

definition is_lower :: "char \<Rightarrow> bool" where
  "is_lower c = (c \<in> set ''abcdefghijklmnopqrstuvwxyz'')"

definition is_upper :: "char \<Rightarrow> bool" where
  "is_upper c = (c \<in> set ''ABCDEFGHIJKLMNOPQRSTUVWXYZ'')"

definition is_word :: "char \<Rightarrow> bool" where
  \<comment> \<open>\<^verbatim>\<open>\w\<close>\<close>
  "is_word c = (is_digit c \<or> is_lower c \<or> is_upper c \<or> c = CHR ''_'')"

definition is_space :: "char \<Rightarrow> bool" where
  \<comment> \<open>\<^verbatim>\<open>\s\<close> and \<^verbatim>\<open>str.isspace\<close>: tab, line feed, vertical tab, form feed, carriage
      return, the four separators 0x1C..0x1F and the space\<close>
  "is_space c = (c \<in> set [CHR 0x09, CHR 0x0A, CHR 0x0B, CHR 0x0C, CHR 0x0D,
                           CHR 0x1C, CHR 0x1D, CHR 0x1E, CHR 0x1F, CHR 0x20])"

definition to_lower :: "char \<Rightarrow> char" where
  "to_lower c = (if is_upper c then char_of (of_char c + (32::nat)) else c)"

definition to_upper :: "char \<Rightarrow> char" where
  "to_upper c = (if is_lower c then char_of (of_char c - (32::nat)) else c)"

definition str_lower :: "string \<Rightarrow> string" where
  \<comment> \<open>\<^verbatim>\<open>str.lower\<close>\<close>
  "str_lower s = map to_lower s"

definition str_strip :: "string \<Rightarrow> string" where
  \<comment> \<open>\<^verbatim>\<open>str.strip()\<close>: white space removed at both ends\<close>
  "str_strip s = rev (dropWhile is_space (rev (dropWhile is_space s)))"

definition slice :: "string \<Rightarrow> nat \<Rightarrow> nat \<Rightarrow> string" where
  \<comment> \<open>\<^verbatim>\<open>s[i:j]\<close> for indices that are not negative: clipped at the end of the string, empty
      when \<open>j \<le> i\<close>\<close>
  "slice s i j = take (j - i) (drop i s)"

fun str_join :: "string \<Rightarrow> string list \<Rightarrow> string" where
  \<comment> \<open>\<^verbatim>\<open>sep.join(xs)\<close>\<close>
  "str_join sep [] = []"
| "str_join sep [x] = x"
| "str_join sep (x # y # ys) = x @ sep @ str_join sep (y # ys)"

subsection \<open>Patterns\<close>

text \<open>
  The constructs the repository's patterns use: literals, character classes with a greedy
  bounded or unbounded repetition, sequence, alternation, a greedy optional group, the word
  boundary \<^verbatim>\<open>\b\<close>, the start of the text \<^verbatim>\<open>^\<close> and the fixed-width look-behind assertions.
\<close>

datatype citem =
    CChar char
  | CRange char char
  | CDigit
  | CWord
  | CSpace
  | CAny

datatype rx =
    Lit string
  | Cls "citem list" nat "nat option"
  | Seq rx rx
  | Alt rx rx
  | Opt rx
  | WordB
  | Bos
  | Behind bool nat rx

fun item_base :: "citem \<Rightarrow> char \<Rightarrow> bool" where
  "item_base (CChar x) c = (c = x)"
| "item_base (CRange lo hi) c = (lo \<le> c \<and> c \<le> hi)"
| "item_base CDigit c = is_digit c"
| "item_base CWord c = is_word c"
| "item_base CSpace c = is_space c"
| "item_base CAny c = (c \<noteq> CHR 0x0A)"

definition item_match :: "bool \<Rightarrow> citem \<Rightarrow> char \<Rightarrow> bool" where
  \<comment> \<open>under \<^verbatim>\<open>re.I\<close> a character matches when either of its two cases does\<close>
  "item_match ci it c =
     (item_base it c \<or> (ci \<and> (item_base it (to_lower c) \<or> item_base it (to_upper c))))"

definition cls_match :: "bool \<Rightarrow> citem list \<Rightarrow> char \<Rightarrow> bool" where
  "cls_match ci its c = list_ex (\<lambda>it. item_match ci it c) its"

text \<open>
  A cursor is a position in the text: the characters before it, nearest first, and the
  characters from it on. Its offset is the length of the first component.
\<close>

type_synonym cursor = "string \<times> string"

definition advance :: "nat \<Rightarrow> cursor \<Rightarrow> cursor" where
  "advance n st = (rev (take n (snd st)) @ fst st, drop n (snd st))"

fun lit_ends :: "bool \<Rightarrow> string \<Rightarrow> cursor \<Rightarrow> cursor list" where
  "lit_ends ci [] st = [st]"
| "lit_ends ci (x # xs) (b, []) = []"
| "lit_ends ci (x # xs) (b, c # cs) =
     (if item_match ci (CChar x) c then lit_ends ci xs (c # b, cs) else [])"

definition cls_ends :: "bool \<Rightarrow> citem list \<Rightarrow> nat \<Rightarrow> nat option \<Rightarrow> cursor \<Rightarrow> cursor list" where
  \<comment> \<open>greedy: the longest run first, then shorter ones down to the minimum\<close>
  "cls_ends ci its lo hi st =
     (let n = length (takeWhile (cls_match ci its) (snd st));
          k = (case hi of None \<Rightarrow> n | Some h \<Rightarrow> min h n)
      in map (\<lambda>j. advance j st) (rev [lo..<Suc k]))"

definition at_boundary :: "cursor \<Rightarrow> bool" where
  "at_boundary st =
     ((case fst st of [] \<Rightarrow> False | c # _ \<Rightarrow> is_word c) \<noteq>
      (case snd st of [] \<Rightarrow> False | c # _ \<Rightarrow> is_word c))"

definition rewind :: "nat \<Rightarrow> cursor \<Rightarrow> cursor" where
  "rewind w st = (drop w (fst st), rev (take w (fst st)) @ snd st)"

text \<open>
  \<open>rx_ends ci r st\<close> lists the cursors where a match of \<open>r\<close> that starts at \<open>st\<close> can end,
  in the order in which a backtracking matcher tries them; the match it reports is the first.
\<close>

fun rx_ends :: "bool \<Rightarrow> rx \<Rightarrow> cursor \<Rightarrow> cursor list" where
  "rx_ends ci (Lit s) st = lit_ends ci s st"
| "rx_ends ci (Cls its lo hi) st = cls_ends ci its lo hi st"
| "rx_ends ci (Seq r1 r2) st = concat (map (rx_ends ci r2) (rx_ends ci r1 st))"
| "rx_ends ci (Alt r1 r2) st = rx_ends ci r1 st @ rx_ends ci r2 st"
| "rx_ends ci (Opt r) st = rx_ends ci r st @ [st]"
| "rx_ends ci WordB st = (if at_boundary st then [st] else [])"
| "rx_ends ci Bos st = (if fst st = [] then [st] else [])"
| "rx_ends ci (Behind pos w r) st =
     (if (w \<le> length (fst st) \<and> st \<in> set (rx_ends ci r (rewind w st))) = pos then [st] else [])"

definition first_match :: "bool \<Rightarrow> rx \<Rightarrow> bool \<Rightarrow> cursor \<Rightarrow> cursor option" where
  \<comment> \<open>the match at this position; after an empty match the next one must advance\<close>
  "first_match ci r must_advance st =
     List.find (\<lambda>st'. \<not> must_advance \<or> length (fst st') \<noteq> length (fst st)) (rx_ends ci r st)"

lemma lit_ends_inv:
  "st' \<in> set (lit_ends ci s st) \<Longrightarrow>
     rev (fst st') @ snd st' = rev (fst st) @ snd st \<and> length (fst st) \<le> length (fst st')"
proof (induction ci s st rule: lit_ends.induct)
  case (3 ci x xs b c cs)
  then show ?case by (auto split: if_splits)
qed auto

lemma cls_ends_inv:
  "st' \<in> set (cls_ends ci its lo hi st) \<Longrightarrow>
     rev (fst st') @ snd st' = rev (fst st) @ snd st \<and> length (fst st) \<le> length (fst st')"
  by (auto simp: cls_ends_def advance_def Let_def)

lemma rx_ends_inv:
  "st' \<in> set (rx_ends ci r st) \<Longrightarrow>
     rev (fst st') @ snd st' = rev (fst st) @ snd st \<and> length (fst st) \<le> length (fst st')"
proof (induction r arbitrary: st st')
  case (Lit s)
  then show ?case using lit_ends_inv by simp
next
  case (Cls its lo hi)
  then show ?case using cls_ends_inv by simp
next
  case (Seq r1 r2)
  from Seq.prems obtain m where m: "m \<in> set (rx_ends ci r1 st)" "st' \<in> set (rx_ends ci r2 m)"
    by auto
  from Seq.IH(1)[OF m(1)] Seq.IH(2)[OF m(2)] show ?case by simp
next
  case (Alt r1 r2)
  from Alt.prems have "st' \<in> set (rx_ends ci r1 st) \<or> st' \<in> set (rx_ends ci r2 st)"
    by simp
  then show ?case using Alt.IH by blast
next
  case (Opt r)
  from Opt.prems have "st' \<in> set (rx_ends ci r st) \<or> st' = st"
    by auto
  then show ?case using Opt.IH by blast
next
  case WordB
  then show ?case by (auto split: if_splits)
next
  case Bos
  then show ?case by (auto split: if_splits)
next
  case (Behind pos w r)
  then show ?case by (auto split: if_splits)
qed

lemma first_match_inv:
  assumes "first_match ci r ma st = Some st'"
  shows "rev (fst st') @ snd st' = rev (fst st) @ snd st"
    and "length (fst st) \<le> length (fst st')"
    and "ma \<Longrightarrow> length (fst st') \<noteq> length (fst st)"
proof -
  from assms have mem: "st' \<in> set (rx_ends ci r st)"
    and ok: "\<not> ma \<or> length (fst st') \<noteq> length (fst st)"
    by (auto simp: first_match_def find_Some_iff)
  from rx_ends_inv[OF mem] show "rev (fst st') @ snd st' = rev (fst st) @ snd st"
    and "length (fst st) \<le> length (fst st')" by simp_all
  from ok show "ma \<Longrightarrow> length (fst st') \<noteq> length (fst st)" by simp
qed

lemma first_match_lengths:
  assumes "first_match ci r ma (b, a) = Some (b', a')"
  shows "length b' + length a' = length b + length a" and "length b \<le> length b'"
proof -
  from first_match_inv(1)[OF assms] have "length (rev b' @ a') = length (rev b @ a)"
    by simp
  then show "length b' + length a' = length b + length a" by simp
  from first_match_inv(2)[OF assms] show "length b \<le> length b'" by simp
qed

lemma first_match_measure:
  assumes "first_match ci r ma (b, a) = Some (b', a')"
  shows "2 * length a' + (if length b' = length b then 0 else 1)
           < 2 * length a + (if ma then 0 else (1::nat))"
  using first_match_lengths[OF assms] first_match_inv(3)[OF assms]
  by (auto split: if_splits)

text \<open>
  The scan that \<^verbatim>\<open>finditer\<close>, \<^verbatim>\<open>sub\<close> and \<^verbatim>\<open>split\<close> share: the leftmost match, then the
  search goes on where it ended. The result is the list of \<open>(m.start(), m.end())\<close>.
\<close>

function scan :: "bool \<Rightarrow> rx \<Rightarrow> bool \<Rightarrow> cursor \<Rightarrow> (nat \<times> nat) list" where
  "scan ci r ma (b, a) =
     (case first_match ci r ma (b, a) of
        Some (b', a') \<Rightarrow> (length b, length b') # scan ci r (length b' = length b) (b', a')
      | None \<Rightarrow> (case a of [] \<Rightarrow> [] | c # cs \<Rightarrow> scan ci r False (c # b, cs)))"
  by pat_completeness auto
termination
  by (relation "measure (\<lambda>(ci, r, ma, b, a). 2 * length a + (if ma then 0 else 1))")
    (auto dest: first_match_measure)

declare scan.simps [simp del]

definition re_finditer :: "bool \<Rightarrow> rx \<Rightarrow> string \<Rightarrow> (nat \<times> nat) list" where
  "re_finditer ci r t = scan ci r False ([], t)"

definition re_search :: "bool \<Rightarrow> rx \<Rightarrow> string \<Rightarrow> bool" where
  \<comment> \<open>\<^verbatim>\<open>re.search(...)\<close> read as a truth value\<close>
  "re_search ci r t = (re_finditer ci r t \<noteq> [])"

fun sub_spans :: "(string \<Rightarrow> string) \<Rightarrow> string \<Rightarrow> nat \<Rightarrow> (nat \<times> nat) list \<Rightarrow> string" where
  "sub_spans f t cur [] = drop cur t"
| "sub_spans f t cur ((s, e) # ms) = slice t cur s @ f (slice t s e) @ sub_spans f t e ms"

definition re_sub :: "bool \<Rightarrow> rx \<Rightarrow> (string \<Rightarrow> string) \<Rightarrow> string \<Rightarrow> string" where
  \<comment> \<open>\<^verbatim>\<open>pattern.sub(repl, text)\<close> with a function \<open>repl\<close> of the matched text\<close>
  "re_sub ci r f t = sub_spans f t 0 (re_finditer ci r t)"

fun split_spans :: "string \<Rightarrow> nat \<Rightarrow> (nat \<times> nat) list \<Rightarrow> string list" where
  "split_spans t cur [] = [drop cur t]"
| "split_spans t cur ((s, e) # ms) = slice t cur s # split_spans t e ms"

definition re_split :: "bool \<Rightarrow> rx \<Rightarrow> string \<Rightarrow> string list" where
  \<comment> \<open>\<^verbatim>\<open>pattern.split(text)\<close> for a pattern without capturing groups\<close>
  "re_split ci r t = split_spans t 0 (re_finditer ci r t)"

abbreviation star :: "citem list \<Rightarrow> rx" where
  "star its \<equiv> Cls its 0 None"

abbreviation plus :: "citem list \<Rightarrow> rx" where
  "plus its \<equiv> Cls its 1 None"

abbreviation one :: "citem list \<Rightarrow> rx" where
  "one its \<equiv> Cls its 1 (Some 1)"

abbreviation rep :: "citem list \<Rightarrow> nat \<Rightarrow> nat \<Rightarrow> rx" where
  "rep its lo hi \<equiv> Cls its lo (Some hi)"

abbreviation chars :: "string \<Rightarrow> citem list" where
  "chars s \<equiv> map CChar s"

fun seqs :: "rx list \<Rightarrow> rx" where
  "seqs [] = Lit []"
| "seqs [r] = r"
| "seqs (r # rs) = Seq r (seqs rs)"

fun alts :: "rx list \<Rightarrow> rx" where
  "alts [] = Cls [] 1 None"
| "alts [r] = r"
| "alts (r # rs) = Alt r (alts rs)"

section \<open>SHA-256\<close>

text \<open>
  \<^verbatim>\<open>hashlib.sha256(data).hexdigest()\<close>, after FIPS 180-4. A 32-bit word is the list of its
  bits, least significant first, so that every operation is a recursion over the bits.
\<close>

type_synonym w32 = "bool list"

fun bits :: "nat \<Rightarrow> int \<Rightarrow> bool list" where
  "bits 0 x = []"
| "bits (Suc n) x = (x mod 2 = 1) # bits n (x div 2)"

fun addc :: "bool \<Rightarrow> bool list \<Rightarrow> bool list \<Rightarrow> bool list" where
  "addc c (x # xs) (y # ys) = (x \<noteq> (y \<noteq> c)) # addc ((x \<and> y) \<or> (c \<and> (x \<noteq> y))) xs ys"
| "addc c _ _ = []"

definition add32 :: "w32 \<Rightarrow> w32 \<Rightarrow> w32" where
  \<comment> \<open>addition modulo \<open>2 ^ 32\<close>: the carry out of the last bit is dropped\<close>
  "add32 x y = addc False x y"

definition xor32 :: "w32 \<Rightarrow> w32 \<Rightarrow> w32" where
  "xor32 x y = map2 (\<noteq>) x y"

definition and32 :: "w32 \<Rightarrow> w32 \<Rightarrow> w32" where
  "and32 x y = map2 (\<and>) x y"

definition not32 :: "w32 \<Rightarrow> w32" where
  "not32 x = map Not x"

definition rotr :: "nat \<Rightarrow> w32 \<Rightarrow> w32" where
  "rotr n x = drop n x @ take n x"

definition shr :: "nat \<Rightarrow> w32 \<Rightarrow> w32" where
  "shr n x = drop n x @ replicate n False"

definition sig0 :: "w32 \<Rightarrow> w32" where
  "sig0 x = xor32 (xor32 (rotr 7 x) (rotr 18 x)) (shr 3 x)"

definition sig1 :: "w32 \<Rightarrow> w32" where
  "sig1 x = xor32 (xor32 (rotr 17 x) (rotr 19 x)) (shr 10 x)"

fun sched :: "nat \<Rightarrow> w32 list \<Rightarrow> w32 list" where
  \<comment> \<open>the message schedule beyond the block itself; \<open>win\<close> holds the last sixteen words\<close>
  "sched 0 win = []"
| "sched (Suc n) win =
     (let new = add32 (add32 (sig1 (win ! 14)) (win ! 9)) (add32 (sig0 (win ! 1)) (win ! 0))
      in new # sched n (tl win @ [new]))"

fun hex_bits :: "char \<Rightarrow> bool list" where
  \<comment> \<open>the four bits of a hexadecimal digit: a digit's code ends in its value, a letter's
      (\<open>a\<close> to \<open>f\<close>) in its value less 9\<close>
  "hex_bits (Char a b c d e f g h) =
     (if g then addc False [a, b, c, d] [True, False, False, True] else [a, b, c, d])"

definition w32_of_hex :: "string \<Rightarrow> w32" where
  \<comment> \<open>the word written as eight hexadecimal digits\<close>
  "w32_of_hex s = concat (map hex_bits (rev s))"

definition sha_K :: "string list" where
  \<comment> \<open>the sixty-four round constants\<close>
  "sha_K = [
   ''428a2f98'', ''71374491'', ''b5c0fbcf'', ''e9b5dba5'', ''3956c25b'', ''59f111f1'',
   ''923f82a4'', ''ab1c5ed5'', ''d807aa98'', ''12835b01'', ''243185be'', ''550c7dc3'',
   ''72be5d74'', ''80deb1fe'', ''9bdc06a7'', ''c19bf174'', ''e49b69c1'', ''efbe4786'',
   ''0fc19dc6'', ''240ca1cc'', ''2de92c6f'', ''4a7484aa'', ''5cb0a9dc'', ''76f988da'',
   ''983e5152'', ''a831c66d'', ''b00327c8'', ''bf597fc7'', ''c6e00bf3'', ''d5a79147'',
   ''06ca6351'', ''14292967'', ''27b70a85'', ''2e1b2138'', ''4d2c6dfc'', ''53380d13'',
   ''650a7354'', ''766a0abb'', ''81c2c92e'', ''92722c85'', ''a2bfe8a1'', ''a81a664b'',
   ''c24b8b70'', ''c76c51a3'', ''d192e819'', ''d6990624'', ''f40e3585'', ''106aa070'',
   ''19a4c116'', ''1e376c08'', ''2748774c'', ''34b0bcb5'', ''391c0cb3'', ''4ed8aa4a'',
   ''5b9cca4f'', ''682e6ff3'', ''748f82ee'', ''78a5636f'', ''84c87814'', ''8cc70208'',
   ''90befffa'', ''a4506ceb'', ''bef9a3f7'', ''c67178f2'']"

definition sha_H0 :: "string list" where
  \<comment> \<open>the initial hash value\<close>
  "sha_H0 = [
   ''6a09e667'', ''bb67ae85'', ''3c6ef372'', ''a54ff53a'',
   ''510e527f'', ''9b05688c'', ''1f83d9ab'', ''5be0cd19'']"

fun sha_round :: "w32 list \<Rightarrow> w32 \<times> w32 \<Rightarrow> w32 list" where
  "sha_round [a, b, c, d, e, f, g, h] (k, w) =
     (let S1 = xor32 (xor32 (rotr 6 e) (rotr 11 e)) (rotr 25 e);
          ch = xor32 (and32 e f) (and32 (not32 e) g);
          t1 = add32 (add32 (add32 (add32 h S1) ch) k) w;
          S0 = xor32 (xor32 (rotr 2 a) (rotr 13 a)) (rotr 22 a);
          mj = xor32 (xor32 (and32 a b) (and32 a c)) (and32 b c);
          t2 = add32 S0 mj
      in [add32 t1 t2, a, b, c, add32 d t1, e, f, g])"
| "sha_round s _ = s"

definition sha_block :: "w32 list \<Rightarrow> w32 list \<Rightarrow> w32 list" where
  "sha_block h ws = map2 add32 h (foldl sha_round h (zip (map w32_of_hex sha_K) (ws @ sched 48 ws)))"

fun utf8 :: "char \<Rightarrow> bool list list" where
  \<comment> \<open>\<^verbatim>\<open>str.encode("utf-8")\<close> of one code point below 256: one byte below 128, two from there on\<close>
  "utf8 (Char a b c d e f g h) =
     (if h then [[g, h, False, False, False, False, True, True],
                 [a, b, c, d, e, f, False, True]]
      else [[a, b, c, d, e, f, g, h]])"

fun be32 :: "bool list list \<Rightarrow> w32 list" where
  \<comment> \<open>four bytes to a word, the first byte the most significant\<close>
  "be32 (a # b # c # d # r) = (d @ c @ b @ a) # be32 r"
| "be32 _ = []"

definition sha_pad :: "bool list list \<Rightarrow> bool list list" where
  \<comment> \<open>the byte 0x80, zero bytes up to 56 modulo 64, the length in bits as eight bytes\<close>
  "sha_pad m =
     (let l = length m;
          z = (55 + 64 - l mod 64) mod 64;
          lb = bits 64 (8 * int l)
      in m @ [bits 8 128] @ replicate z (bits 8 0) @
         rev (map (\<lambda>i. take 8 (drop (8 * i) lb)) [0..<8]))"

fun chunks :: "nat \<Rightarrow> 'a list \<Rightarrow> 'a list list" where
  "chunks n xs = (if n = 0 \<or> xs = [] then [] else take n xs # chunks n (drop n xs))"

declare chunks.simps [simp del]

definition sha256 :: "bool list list \<Rightarrow> w32 list" where
  "sha256 m = foldl sha_block (map w32_of_hex sha_H0) (chunks 16 (be32 (sha_pad m)))"

fun nibble :: "bool list \<Rightarrow> nat" where
  "nibble [a, b, c, d] = of_bool a + 2 * of_bool b + 4 * of_bool c + 8 * of_bool d"
| "nibble _ = 0"

definition hex32 :: "w32 \<Rightarrow> string" where
  "hex32 w = rev (map (\<lambda>i. ''0123456789abcdef'' ! nibble (take 4 (drop (4 * i) w))) [0..<8])"

definition sha256_hexdigest :: "string \<Rightarrow> string" where
  \<comment> \<open>\<^verbatim>\<open>hashlib.sha256(s.encode("utf-8")).hexdigest()\<close>\<close>
  "sha256_hexdigest s = concat (map hex32 (sha256 (concat (map utf8 s))))"

section \<open>Configuration\<close>

text \<open>The class \<^verbatim>\<open>Settings\<close> of \<^verbatim>\<open>config.py\<close>, field by field.\<close>

record settings =
  api_host :: string
  api_port :: int
  max_chars :: int
  accepted_report_types :: "string list"
  anonymize_strategy :: string
  mask_char :: string
  hash_salt :: string
  reduce_whitespace :: bool
  keep_dates :: bool
  summarizer_model :: string
  summarizer_max_input_tokens :: int
  summarizer_max_output_tokens :: int
  summarizer_num_beams :: int
  summarizer_temperature :: real
  summarizer_prompt_style :: string
  risk_nli_model :: string
  risk_labels_csv :: string
  risk_threshold_high :: real
  risk_threshold_moderate :: real
  device_preference :: string
  risk_heuristics_enabled :: bool
  seed :: int

definition default_settings :: "string \<Rightarrow> settings" where
  \<comment> \<open>the defaults of \<^verbatim>\<open>Settings\<close>; the default mask character, U+2588, lies outside
      \<^typ>\<open>char\<close> and is the parameter \<open>mc\<close>\<close>
  "default_settings mc = \<lparr>
     api_host = ''0.0.0.0'', api_port = 8000, max_chars = 20000,
     accepted_report_types = [''radiology'', ''pathology'', ''discharge'', ''ecg'', ''echo'', ''others''],
     anonymize_strategy = ''hash'', mask_char = mc, hash_salt = ''mediscan'',
     reduce_whitespace = True, keep_dates = False,
     summarizer_model = ''google/flan-t5-base'', summarizer_max_input_tokens = 2048,
     summarizer_max_output_tokens = 128, summarizer_num_beams = 4,
     summarizer_temperature = 0, summarizer_prompt_style = ''radiology_brief'',
     risk_nli_model = ''facebook/bart-large-mnli'',
     risk_labels_csv = ''low risk,moderate risk,high risk'',
     risk_threshold_high = 64 / 100, risk_threshold_moderate = 42 / 100,
     device_preference = ''auto'', risk_heuristics_enabled = True, seed = 42 \<rparr>"

section \<open>The anonymizer (\<^verbatim>\<open>preprocess/anonymizer.py\<close>)\<close>

text \<open>
  The module compiles its patterns with the \<^verbatim>\<open>regex\<close> package under the name \<^verbatim>\<open>re\<close>; they use
  only constructs that the two packages match alike, and are read with the tables above.
\<close>

definition months :: "string list" where
  "months = [''Jan'', ''Feb'', ''Mar'', ''Apr'', ''May'', ''Jun'',
             ''Jul'', ''Aug'', ''Sep'', ''Oct'', ''Nov'', ''Dec'']"

definition email_rx :: rx where
  \<comment> \<open>\<^verbatim>\<open>\b[A-Z0-9._%+-]+@[A-Z0-9.-]+\.[A-Z]{2,}\b\<close>\<close>
  "email_rx = seqs [WordB,
     plus (CRange CHR ''A'' CHR ''Z'' # CRange CHR ''0'' CHR ''9'' # chars ''._%+-''),
     Lit ''@'',
     plus (CRange CHR ''A'' CHR ''Z'' # CRange CHR ''0'' CHR ''9'' # chars ''.-''),
     Lit ''.'',
     Cls [CRange CHR ''A'' CHR ''Z''] 2 None, WordB]"

definition phone_rx :: rx where
  \<comment> \<open>\<^verbatim>\<open>\b(?:\+?\d{1,3})?[-. (]*\d{2,4}[-. )]*\d{3,4}[-. ]*\d{3,4}\b\<close>\<close>
  "phone_rx = seqs [WordB,
     Opt (Seq (Opt (Lit ''+'')) (rep [CDigit] 1 3)),
     star (chars ''-. (''), rep [CDigit] 2 4,
     star (chars ''-. )''), rep [CDigit] 3 4,
     star (chars ''-. ''), rep [CDigit] 3 4, WordB]"

definition mrn_rx :: rx where
  \<comment> \<open>\<^verbatim>\<open>\b(MRN[:\s]*\d{5,12}|\d{7,12})\b\<close>\<close>
  "mrn_rx = seqs [WordB,
     Alt (seqs [Lit ''MRN'', star [CChar CHR '':'', CSpace], rep [CDigit] 5 12])
         (rep [CDigit] 7 12),
     WordB]"

definition ssn_like_rx :: rx where
  \<comment> \<open>\<^verbatim>\<open>\b\d{3}-\d{2}-\d{4}\b\<close>\<close>
  "ssn_like_rx = seqs [WordB,
     rep [CDigit] 3 3, Lit ''-'', rep [CDigit] 2 2, Lit ''-'', rep [CDigit] 4 4, WordB]"

definition date_rx :: rx where
  \<comment> \<open>\<^verbatim>\<open>\b(?:\d{1,2}[-/]\d{1,2}[-/]\d{2,4}|(?:Jan|Feb|Mar|Apr|May|Jun|Jul|Aug|Sep|Oct|Nov|Dec)[a-z]*\s+\d{1,2},\s+\d{4})\b\<close>\<close>
  "date_rx = seqs [WordB,
     Alt (seqs [rep [CDigit] 1 2, one (chars ''-/''), rep [CDigit] 1 2, one (chars ''-/''),
                rep [CDigit] 2 4])
         (seqs [alts (map Lit months), star [CRange CHR ''a'' CHR ''z''], plus [CSpace],
                rep [CDigit] 1 2, Lit '','', plus [CSpace], rep [CDigit] 4 4]),
     WordB]"

definition name_hint_rx :: rx where
  \<comment> \<open>\<^verbatim>\<open>\b(?:Patient|Pt\.?|Mr\.|Ms\.|Mrs\.|Dr\.|MD|RN)\s+[A-Z][a-z]+(?:\s[A-Z][a-z]+)?\b\<close>\<close>
  "name_hint_rx = seqs [WordB,
     alts [Lit ''Patient'', Seq (Lit ''Pt'') (Opt (Lit ''.'')), Lit ''Mr.'', Lit ''Ms.'',
           Lit ''Mrs.'', Lit ''Dr.'', Lit ''MD'', Lit ''RN''],
     plus [CSpace], one [CRange CHR ''A'' CHR ''Z''], plus [CRange CHR ''a'' CHR ''z''],
     Opt (seqs [one [CSpace], one [CRange CHR ''A'' CHR ''Z''], plus [CRange CHR ''a'' CHR ''z'']]),
     WordB]"

definition address_like_rx :: rx where
  \<comment> \<open>\<^verbatim>\<open>\b\d{1,5}\s+[A-Z][A-Za-z]+\s(?:St|Street|Ave|Avenue|Rd|Road|Blvd|Boulevard|Ln|Lane)\b\<close>\<close>
  "address_like_rx = seqs [WordB,
     rep [CDigit] 1 5, plus [CSpace], one [CRange CHR ''A'' CHR ''Z''],
     plus [CRange CHR ''A'' CHR ''Z'', CRange CHR ''a'' CHR ''z''], one [CSpace],
     alts (map Lit [''St'', ''Street'', ''Ave'', ''Avenue'', ''Rd'', ''Road'', ''Blvd'',
                    ''Boulevard'', ''Ln'', ''Lane'']),
     WordB]"

definition PATTERNS :: "(string \<times> bool \<times> rx) list" where
  \<comment> \<open>name, whether the pattern is compiled with \<^verbatim>\<open>re.I\<close>, the pattern; in the order of the dict\<close>
  "PATTERNS = [
     (''email'', True, email_rx),
     (''phone'', False, phone_rx),
     (''mrn'', True, mrn_rx),
     (''ssn_like'', False, ssn_like_rx),
     (''date'', True, date_rx),
     (''name_hint'', False, name_hint_rx),
     (''address_like'', True, address_like_rx)]"

definition hash_token :: "settings \<Rightarrow> string \<Rightarrow> string" where
  \<comment> \<open>\<^verbatim>\<open>_hash_token\<close>: the first ten hexadecimal digits of the digest of salt and token\<close>
  "hash_token cfg token = ''<ID:'' @ take 10 (sha256_hexdigest (hash_salt cfg @ token)) @ ''>''"

definition mask_token :: "settings \<Rightarrow> string \<Rightarrow> string" where
  \<comment> \<open>\<^verbatim>\<open>_mask_token\<close>: \<^verbatim>\<open>settings.mask_char * max(6, len(token))\<close>\<close>
  "mask_token cfg token = concat (replicate (max 6 (length token)) (mask_char cfg))"

definition replace :: "settings \<Rightarrow> string \<Rightarrow> bool \<times> rx \<Rightarrow> string \<Rightarrow> string" where
  \<comment> \<open>\<^verbatim>\<open>_replace(text, pattern, strategy)\<close>\<close>
  "replace cfg text pattern strategy =
     re_sub (fst pattern) (snd pattern)
       (\<lambda>token. if strategy = ''hash'' then hash_token cfg token else mask_token cfg token) text"

fun dict_get :: "(string \<times> 'v) list \<Rightarrow> string \<Rightarrow> 'v \<Rightarrow> 'v" where
  \<comment> \<open>\<^verbatim>\<open>d.get(k, default)\<close>\<close>
  "dict_get [] k d = d"
| "dict_get ((k', v) # kvs) k d = (if k' = k then v else dict_get kvs k d)"

fun dict_set :: "(string \<times> 'v) list \<Rightarrow> string \<Rightarrow> 'v \<Rightarrow> (string \<times> 'v) list" where
  \<comment> \<open>\<^verbatim>\<open>d[k] = v\<close>: a key keeps its place, a new key goes last\<close>
  "dict_set [] k v = [(k, v)]"
| "dict_set ((k', v') # kvs) k v = (if k' = k then (k, v) # kvs else (k', v') # dict_set kvs k v)"

definition anonymize_pass ::
  "settings \<Rightarrow> string \<Rightarrow> string \<times> (string \<times> nat) list \<Rightarrow> string \<times> bool \<times> rx
     \<Rightarrow> string \<times> (string \<times> nat) list" where
  \<comment> \<open>one turn of the loop over \<^verbatim>\<open>PATTERNS.items()\<close>; the state is \<open>(out, counts)\<close>\<close>
  "anonymize_pass cfg strategy st p =
     (let name = fst p; pattern = snd p; out = fst st; counts = snd st in
      if name = ''date'' \<and> keep_dates cfg then st
      else
        let before_out = out;
            out' = replace cfg out pattern strategy
        in if out' \<noteq> before_out
           then (out', dict_set counts name
                   (dict_get counts name 0 + length (re_finditer (fst pattern) (snd pattern) before_out)))
           else (out', counts))"

definition blanks_rx :: rx where
  \<comment> \<open>\<^verbatim>\<open>[ \t]+\<close>\<close>
  "blanks_rx = plus (chars [CHR '' '', CHR 0x09])"

definition line_break_rx :: rx where
  \<comment> \<open>\<^verbatim>\<open>\s*\n\s*\<close>\<close>
  "line_break_rx = seqs [star [CSpace], Lit [CHR 0x0A], star [CSpace]]"

definition anonymize :: "settings \<Rightarrow> string \<Rightarrow> string \<times> (string \<times> nat) list" where
  "anonymize cfg text =
     (let strategy = str_strip (str_lower (anonymize_strategy cfg));
          st = foldl (anonymize_pass cfg strategy) (text, []) PATTERNS;
          out = fst st; counts = snd st
      in if reduce_whitespace cfg
         then (str_strip
                 (re_sub False line_break_rx (\<lambda>_. [CHR 0x0A])
                    (re_sub False blanks_rx (\<lambda>_. '' '') out)),
               counts)
         else (out, counts))"

section \<open>The summarizer (\<^verbatim>\<open>nlp/summarizer.py\<close>)\<close>

text \<open>
  The tokenizer and the sequence-to-sequence model are collaborators outside the repository:
  a summarizer holds them as functions when they loaded, and nothing when loading failed
  (\<^verbatim>\<open>abstractive_ok\<close>). Python's floats are modelled as real numbers.
\<close>

record SummarizationConfig =
  model_name :: string
  max_input_tokens :: int
  max_output_tokens :: int
  num_beams :: int
  temperature :: real
  prompt_style :: string

record seq2seq =
  encode :: "string \<Rightarrow> nat list"
  decode :: "nat list \<Rightarrow> string"
  generate :: "string \<Rightarrow> int \<Rightarrow> int \<Rightarrow> bool \<Rightarrow> real \<Rightarrow> string"

record Summarizer =
  cfg :: SummarizationConfig
  backend :: "seq2seq option"

definition abstractive_ok :: "Summarizer \<Rightarrow> bool" where
  "abstractive_ok S = (backend S \<noteq> None)"









fun str_contains :: "string \<Rightarrow> string \<Rightarrow> bool" where
  \<comment> \<open>\<^verbatim>\<open>k in s\<close>\<close>
  "str_contains k [] = (k = [])"
| "str_contains k (c # cs) = (take (length k) (c # cs) = k \<or> str_contains k cs)"











section \<open>The segmenter (\<^verbatim>\<open>preprocess/segmenter.py\<close>)\<close>

definition SENT_SPLIT_FALLBACK :: rx where
  \<comment> \<open>\<^verbatim>\<open>(?<!\w\.\w.)(?<![A-Z][a-z]\.)(?<=\.|\?)\s\<close>\<close>
  "SENT_SPLIT_FALLBACK = seqs [
     Behind False 4 (seqs [one [CWord], Lit ''.'', one [CWord], one [CAny]]),
     Behind False 3 (seqs [one [CRange CHR ''A'' CHR ''Z''], one [CRange CHR ''a'' CHR ''z''], Lit ''.'']),
     Behind True 1 (Alt (Lit ''.'') (Lit ''?'')),
     one [CSpace]]"

definition split_sentences :: "(string \<Rightarrow> string list option) \<Rightarrow> string \<Rightarrow> string list" where
  \<comment> \<open>\<open>sent_tokenize\<close> is NLTK's tokenizer; \<open>None\<close> stands for any exception it raises\<close>
  "split_sentences sent_tokenize text =
     (if str_strip text = [] then []
      else case sent_tokenize text of
        Some sents \<Rightarrow> map str_strip (filter (\<lambda>s. length (str_strip s) > 1) sents)
      | None \<Rightarrow>
          map str_strip (filter (\<lambda>s. str_strip s \<noteq> []) (re_split False SENT_SPLIT_FALLBACK text)))"

section \<open>The risk patterns and the highlighter (\<^verbatim>\<open>nlp/risk_tagger.py\<close>, \<^verbatim>\<open>app_streamlit.py\<close>)\<close>

definition word_rx :: "string \<Rightarrow> rx" where
  \<comment> \<open>\<^verbatim>\<open>\bWORD\b\<close>\<close>
  "word_rx w = seqs [WordB, Lit w, WordB]"

definition hemorrhage_rx :: rx where
  \<comment> \<open>\<^verbatim>\<open>\b(subarachnoid|intracranial)\s+hemorrhage\b\<close>\<close>
  "hemorrhage_rx = seqs [WordB, Alt (Lit ''subarachnoid'') (Lit ''intracranial''), plus [CSpace],
                         Lit ''hemorrhage'', WordB]"

definition mass_invasion_rx :: rx where
  \<comment> \<open>\<^verbatim>\<open>\bmass\s+(?:with|and)?\s*invasion\b\<close>\<close>
  "mass_invasion_rx = seqs [WordB, Lit ''mass'', plus [CSpace], Opt (Alt (Lit ''with'') (Lit ''and'')),
                            star [CSpace], Lit ''invasion'', WordB]"

definition embolism_rx :: rx where
  \<comment> \<open>\<^verbatim>\<open>\bpulmonary\s+embolism\b\<close>\<close>
  "embolism_rx = seqs [WordB, Lit ''pulmonary'', plus [CSpace], Lit ''embolism'', WordB]"

definition infarction_rx :: rx where
  \<comment> \<open>\<^verbatim>\<open>\bstemi\b|\bnstemi\b|\bmyocardial\s+infarction\b\<close>\<close>
  "infarction_rx = alts [word_rx ''stemi'', word_rx ''nstemi'',
                         seqs [WordB, Lit ''myocardial'', plus [CSpace], Lit ''infarction'', WordB]]"

definition malignan_rx :: rx where
  \<comment> \<open>\<^verbatim>\<open>\bmalignan\w+\b\<close>\<close>
  "malignan_rx = seqs [WordB, Lit ''malignan'', plus [CWord], WordB]"

definition ischemi_rx :: rx where
  \<comment> \<open>\<^verbatim>\<open>\bischemi\w+\b\<close>\<close>
  "ischemi_rx = seqs [WordB, Lit ''ischemi'', plus [CWord], WordB]"

definition HEURISTIC_PATTERNS :: "(string \<times> rx list) list" where
  "HEURISTIC_PATTERNS = [
     (''high'', [hemorrhage_rx, mass_invasion_rx, embolism_rx, infarction_rx, malignan_rx,
                 word_rx ''perforation'']),
     (''moderate'', [word_rx ''cardiomegaly'', word_rx ''consolidation'', word_rx ''effusion'',
                     word_rx ''pneumonia'', word_rx ''fracture'', ischemi_rx])]"

type_synonym span = "nat \<times> nat \<times> string"

definition found_spans :: "string \<Rightarrow> span list" where
  \<comment> \<open>the three nested loops of \<^verbatim>\<open>_collect_matches\<close>, with \<^verbatim>\<open>flags=re.I\<close>\<close>
  "found_spans t =
     concat (map (\<lambda>(severity, patterns).
       concat (map (\<lambda>pat. map (\<lambda>(s, e). (s, e, severity)) (re_finditer True pat t)) patterns))
       HEURISTIC_PATTERNS)"

fun drop_overlaps :: "int \<Rightarrow> span list \<Rightarrow> span list" where
  \<comment> \<open>the last loop of \<^verbatim>\<open>_collect_matches\<close>; the first argument is \<^verbatim>\<open>last_end\<close>\<close>
  "drop_overlaps last_end [] = []"
| "drop_overlaps last_end ((s, e, sev) # spans) =
     (if int s \<ge> last_end then (s, e, sev) # drop_overlaps (int e) spans
      else drop_overlaps last_end spans)"

definition collect_matches :: "string \<Rightarrow> span list" where
  \<comment> \<open>\<^verbatim>\<open>_collect_matches\<close>: the sort is stable, its key \<^verbatim>\<open>(x[0], -(x[1] - x[0]))\<close>\<close>
  "collect_matches text =
     drop_overlaps (- 1)
       (sort_key (\<lambda>(s, e, sev). (int s, - (int e - int s))) (found_spans text))"

fun chained :: "nat \<Rightarrow> span list \<Rightarrow> bool" where
  \<comment> \<open>each span starts where the one before it ended, or later; the first at \<open>c\<close> or later\<close>
  "chained c [] = True"
| "chained c ((s, e, v) # spans) = (c \<le> s \<and> s \<le> e \<and> chained e spans)"







section \<open>The risk tagger (\<^verbatim>\<open>nlp/risk_tagger.py\<close>)\<close>

text \<open>
  The NLI model is a collaborator outside the repository: a tagger holds it as the function
  from premise and hypothesis to the probability of entailment when it loaded, and nothing when
  loading failed (\<^verbatim>\<open>nli_ok\<close>). Probabilities are real numbers.
\<close>

datatype py_error = ValueError

record RiskConfig =
  risk_model_name :: string
  labels :: "string list"
  th_high :: real
  th_mod :: real
  use_heuristics :: bool

record RiskTagger =
  risk_cfg :: RiskConfig
  nli :: "(string \<Rightarrow> string \<Rightarrow> real) option"

fun split_on :: "char \<Rightarrow> string \<Rightarrow> string list" where
  \<comment> \<open>\<^verbatim>\<open>s.split(c)\<close>\<close>
  "split_on c [] = [[]]"
| "split_on c (x # xs) =
     (if x = c then [] # split_on c xs
      else case split_on c xs of w # ws \<Rightarrow> (x # w) # ws | [] \<Rightarrow> [[x]])"

definition risk_config :: "settings \<Rightarrow> RiskConfig" where
  \<comment> \<open>the configuration \<^verbatim>\<open>RiskTagger.__init__\<close> reads from the settings\<close>
  "risk_config st =
     (let label_list = filter (\<lambda>l. l \<noteq> []) (map str_strip (split_on CHR '','' (risk_labels_csv st)))
      in \<lparr> risk_model_name = risk_nli_model st,
           labels = (if label_list = [] then [''low risk'', ''moderate risk'', ''high risk'']
                     else label_list),
           th_high = risk_threshold_high st,
           th_mod = risk_threshold_moderate st,
           use_heuristics = risk_heuristics_enabled st \<rparr>)"

definition new_RiskTagger ::
  "settings \<Rightarrow> RiskConfig option \<Rightarrow> (string \<Rightarrow> string \<Rightarrow> real) option \<Rightarrow> RiskTagger" where
  \<comment> \<open>\<^verbatim>\<open>RiskTagger(cfg)\<close>; the last argument is what \<^verbatim>\<open>load_nli\<close> gave, \<open>None\<close> when it raised\<close>
  "new_RiskTagger st c loaded =
     \<lparr> risk_cfg = (case c of Some c' \<Rightarrow> c' | None \<Rightarrow> risk_config st), nli = loaded \<rparr>"

definition any_pattern :: "string \<Rightarrow> string \<Rightarrow> bool" where
  \<comment> \<open>\<^verbatim>\<open>any(re.search(p, text_l) for p in HEURISTIC_PATTERNS[severity])\<close>\<close>
  "any_pattern severity text_l =
     list_ex (\<lambda>p. re_search False p text_l) (dict_get HEURISTIC_PATTERNS severity [])"

definition heuristic_score :: "string \<Rightarrow> (string \<times> real) list" where
  \<comment> \<open>\<^verbatim>\<open>_heuristic_score\<close>\<close>
  "heuristic_score text =
     (let text_l = str_lower text;
          high = any_pattern ''high'' text_l;
          moderate = any_pattern ''moderate'' text_l
      in if high then [(''high risk'', 85 / 100), (''moderate risk'', 1 / 10), (''low risk'', 5 / 100)]
         else if moderate then [(''high risk'', 2 / 10), (''moderate risk'', 6 / 10), (''low risk'', 2 / 10)]
         else [(''high risk'', 5 / 100), (''moderate risk'', 25 / 100), (''low risk'', 70 / 100)])"

definition hypothesis :: "string \<Rightarrow> string" where
  \<comment> \<open>\<^verbatim>\<open>f"The clinical case is {label}."\<close>\<close>
  "hypothesis label = ''The clinical case is '' @ label @ ''.''"

definition entail_scores :: "(string \<Rightarrow> string \<Rightarrow> real) \<Rightarrow> string list \<Rightarrow> string \<Rightarrow> (string \<times> real) list" where
  \<comment> \<open>the loop over the labels, with the premise \<^verbatim>\<open>text[:2000]\<close>\<close>
  "entail_scores e ls text =
     foldl (\<lambda>probs label. dict_set probs label (e (take 2000 text) (hypothesis label))) [] ls"

definition normalize :: "(string \<times> real) list \<Rightarrow> (string \<times> real) list" where
  \<comment> \<open>\<^verbatim>\<open>s = sum(probs.values()) or 1.0\<close>, then every value divided by \<open>s\<close>\<close>
  "normalize probs =
     (let s0 = sum_list (map snd probs); s = (if s0 = 0 then 1 else s0)
      in map (\<lambda>(k, v). (k, v / s)) probs)"

definition fuse ::
  "(string list \<Rightarrow> string list) \<Rightarrow> (string \<times> real) list \<Rightarrow> (string \<times> real) list \<Rightarrow> (string \<times> real) list" where
  \<comment> \<open>the fusion over \<^verbatim>\<open>set(probs) | set(base_probs)\<close>; Python does not specify the order in
      which it iterates over a set, and \<open>set_iter\<close> stands for it\<close>
  "fuse set_iter probs base_probs =
     map (\<lambda>k. (k, 7 / 10 * dict_get probs k 0 + 3 / 10 * dict_get base_probs k 0))
       (set_iter (remdups (map fst probs @ map fst base_probs)))"

fun max_item :: "(string \<times> real) list \<Rightarrow> py_error + string \<times> real" where
  \<comment> \<open>\<^verbatim>\<open>max(probs.items(), key=lambda kv: kv[1])\<close>: the first item of the largest value;
      \<^verbatim>\<open>ValueError\<close> on an empty dict\<close>
  "max_item [] = Inl ValueError"
| "max_item (kv # kvs) = Inr (foldl (\<lambda>best x. if snd x > snd best then x else best) kv kvs)"

definition choose_label :: "RiskConfig \<Rightarrow> (string \<times> real) list \<Rightarrow> string \<Rightarrow> string" where
  \<comment> \<open>the three branches after \<^verbatim>\<open>top_label\<close> is computed\<close>
  "choose_label c probs top_label =
     (if dict_get probs ''high risk'' 0 \<ge> th_high c then ''high risk''
      else if dict_get probs ''moderate risk'' 0 \<ge> th_mod c \<and> top_label \<noteq> ''high risk''
        then ''moderate risk''
      else top_label)"

definition final_probs ::
  "RiskTagger \<Rightarrow> (string list \<Rightarrow> string list) \<Rightarrow> string \<Rightarrow> (string \<times> real) list" where
  \<comment> \<open>the dict \<^verbatim>\<open>probs\<close> of \<^verbatim>\<open>tag\<close> at the point where the label is chosen\<close>
  "final_probs T set_iter text =
     (let c = risk_cfg T;
          base_probs = (if use_heuristics c then Some (heuristic_score text) else None);
          probs = (case nli T of
                     Some e \<Rightarrow> normalize (entail_scores e (labels c) text)
                   | None \<Rightarrow> (case base_probs of
                                Some b \<Rightarrow> (if b = [] then [(''low risk'', 1)] else b)
                              | None \<Rightarrow> [(''low risk'', 1)]))
      in case (base_probs, nli T) of
           (Some b, Some e) \<Rightarrow> (if b = [] then probs else fuse set_iter probs b)
         | _ \<Rightarrow> probs)"

definition tag ::
  "RiskTagger \<Rightarrow> (string list \<Rightarrow> string list) \<Rightarrow> string
     \<Rightarrow> py_error + string \<times> (string \<times> real) list \<times> (string \<times> string) list" where
  "tag T set_iter text =
     (let c = risk_cfg T;
          probs = final_probs T set_iter text
      in case max_item probs of
           Inl err \<Rightarrow> Inl err
         | Inr best \<Rightarrow>
             Inr (choose_label c probs (fst best), probs,
                  [(''model'', if nli T \<noteq> None then risk_model_name c else ''heuristics-only''),
                   (''heuristics'', if use_heuristics c then ''True'' else ''False''),
                   (''labels'', str_join '','' (labels c))]))"



definition half_low :: "string \<Rightarrow> string \<Rightarrow> real" where
  \<comment> \<open>a stand-in for a loaded classifier: entailment 1/2 for the label \<open>low risk\<close>, 1/4 otherwise\<close>
  "half_low premise hyp = (if hyp = hypothesis ''low risk'' then 1 / 2 else 1 / 4)"

subsection \<open>The text of the repository's example, and what the passes make of it\<close>

definition c1_input :: string where
  "c1_input = ''Patient Mr. John Doe, email a@b.com, phone 415-555-0199. MRN 12345678.''"

definition c1_text1 :: string where
  "c1_text1 = ''Patient Mr. John Doe, email <ID:4f65672349>, phone 415-555-0199. MRN 12345678.''"

definition c1_text2 :: string where
  "c1_text2 = ''Patient Mr. John Doe, email <ID:4f65672349>, phone<ID:c458480777>. MRN<ID:47d81971db>.''"

definition c1_text3 :: string where
  "c1_text3 = ''<ID:2e6892a5e7>. John Doe, email <ID:4f65672349>, phone<ID:c458480777>. MRN<ID:47d81971db>.''"

section \<open>Properties of the anonymizer's mask\<close>

text \<open>
  Claim C7, as the code has it. The replacement of a token under the mask strategy is the mask
  string repeated \<open>max 6 (length token)\<close> times. With a mask of one character its length is
  at least 6, the same (6) for all tokens of at most 6 characters, and the token's own length
  for every longer token.
\<close>

theorem mask_token_length:
  assumes "length (mask_char c) = 1"
  shows "length (mask_token c token) = max 6 (length token)
       \<and> 6 \<le> length (mask_token c token)
       \<and> (length token \<le> 6 \<and> length token' \<le> 6
            \<longrightarrow> length (mask_token c token) = length (mask_token c token'))
       \<and> (6 \<le> length token \<longrightarrow> length (mask_token c token) = length token)"
proof -
  have len: "length (mask_token c t) = max 6 (length t)" for t
    using assms by (simp add: mask_token_def length_concat sum_list_replicate)
  show ?thesis by (auto simp: len)
qed

theorem mask_token_length_witness:
  "length (mask_char (default_settings ''#'')) = 1
   \<and> length (mask_token (default_settings ''#'') ''a@b.com'') = 7
   \<and> length (mask_token (default_settings ''#'') ''Doe'') = 6
   \<and> length (mask_token (default_settings ''#'') ''Doe'')
       = length (mask_token (default_settings ''#'') ''Kim J'')"
proof -
  have h: "length (mask_char (default_settings ''#'')) = 1"
    by (simp add: default_settings_def)
  show ?thesis
    using h mask_token_length [OF h, of "''a@b.com''" "''a@b.com''"]
      mask_token_length [OF h, of "''Doe''" "''Kim J''"]
    by simp
qed

text \<open>
  The claim as stated asks for equal replacement lengths for all tokens at or beyond the
  floor. Two tokens of 7 and 8 characters get replacements of 7 and 8 characters.
\<close>

theorem mask_token_length_counterexample:
  "6 \<le> length ''a@b.com'' \<and> 6 \<le> length ''ab@b.com''
   \<and> length (mask_token (default_settings ''#'') ''a@b.com'') = 7
   \<and> length (mask_token (default_settings ''#'') ''ab@b.com'') = 8"
  by (simp add: mask_token_def default_settings_def)

section \<open>Properties of the summarizer\<close>















section \<open>Properties of the highlighter\<close>

lemma scan_spans:
  "(s, e) \<in> set (scan ci r ma st) \<Longrightarrow>
     length (fst st) \<le> s \<and> s \<le> e \<and> e \<le> length (fst st) + length (snd st)"
proof (induction ci r ma st arbitrary: s e rule: scan.induct)
  case (1 ci r ma b a)
  show ?case
  proof (cases "first_match ci r ma (b, a)")
    case None
    show ?thesis
    proof (cases a)
      case Nil
      with None 1(3) show ?thesis by (simp add: scan.simps)
    next
      case (Cons c cs)
      with None 1(3) have "(s, e) \<in> set (scan ci r False (c # b, cs))"
        by (simp add: scan.simps)
      from 1(1)[OF None Cons this] Cons show ?thesis by simp
    qed
  next
    case (Some st')
    obtain b' a' where st': "st' = (b', a')" by (cases st')
    from Some st' have fm: "first_match ci r ma (b, a) = Some (b', a')" by simp
    note len = first_match_lengths[OF fm]
    from 1(3) fm have "(s, e) = (length b, length b')
        \<or> (s, e) \<in> set (scan ci r (length b' = length b) (b', a'))"
      by (simp add: scan.simps)
    then show ?thesis
    proof
      assume "(s, e) = (length b, length b')"
      with len show ?thesis by simp
    next
      assume "(s, e) \<in> set (scan ci r (length b' = length b) (b', a'))"
      from 1(2)[OF fm refl this] len show ?thesis by simp
    qed
  qed
qed

lemma re_finditer_spans:
  "(s, e) \<in> set (re_finditer ci r t) \<Longrightarrow> s \<le> e \<and> e \<le> length t"
  using scan_spans[of s e ci r False "([], t)"] by (simp add: re_finditer_def)

lemma found_spans_valid:
  "(s, e, v) \<in> set (found_spans t) \<Longrightarrow> s \<le> e \<and> e \<le> length t"
  by (auto simp: found_spans_def dest: re_finditer_spans)


lemma drop_overlaps_chained:
  "\<forall>(s, e, v) \<in> set xs. s \<le> e \<Longrightarrow> int c \<le> l \<or> c = 0 \<Longrightarrow> chained c (drop_overlaps l xs)"
proof (induction l xs arbitrary: c rule: drop_overlaps.induct)
  case (1 l)
  then show ?case by simp
next
  case (2 l s e sev spans)
  show ?case
  proof (cases "int s \<ge> l")
    case True
    have "chained e (drop_overlaps (int e) spans)"
      using 2(1)[OF True, of e] 2(3) by simp
    moreover have "c \<le> s" using True 2(4) by auto
    moreover have "s \<le> e" using 2(3) by simp
    ultimately show ?thesis using True by simp
  next
    case False
    then show ?thesis using 2(2)[OF False, of c] 2(3) 2(4) by simp
  qed
qed

lemma chained_bounds:
  "chained c xs \<Longrightarrow> (s, e, v) \<in> set xs \<Longrightarrow> c \<le> s \<and> s \<le> e"
proof (induction c xs rule: chained.induct)
  case (2 c s' e' v' spans)
  then show ?case by fastforce
qed simp

lemma chained_sorted:
  "chained c xs \<Longrightarrow> sorted_wrt (\<lambda>a b. fst (snd a) \<le> fst b) xs"
proof (induction c xs rule: chained.induct)
  case (2 c s e v spans)
  then have "\<forall>x \<in> set spans. e \<le> fst x"
    using chained_bounds[of e spans] by fastforce
  with 2 show ?case by simp
qed simp

lemma collect_matches_chained: "chained 0 (collect_matches text)"
proof -
  have "\<forall>(s, e, v) \<in> set (sort_key (\<lambda>(s, e, sev). (int s, - (int e - int s))) (found_spans text)). s \<le> e"
    using found_spans_valid by auto
  then show ?thesis
    unfolding collect_matches_def by (rule drop_overlaps_chained) simp
qed


text \<open>
  Claim C2. For every text the spans that \<^verbatim>\<open>_collect_matches\<close> returns are sorted by their
  start, and of any two of them the earlier one ends where the later one starts, or before.
\<close>

theorem collect_matches_non_overlapping:
  "sorted (map fst (collect_matches text))
   \<and> (\<forall>i j. i < j \<and> j < length (collect_matches text)
         \<longrightarrow> fst (snd (collect_matches text ! i)) \<le> fst (collect_matches text ! j))"
proof -
  let ?xs = "collect_matches text"
  have sw: "sorted_wrt (\<lambda>a b. fst (snd a) \<le> fst b) ?xs"
    using collect_matches_chained by (rule chained_sorted)
  have valid: "\<forall>x \<in> set ?xs. fst x \<le> fst (snd x)"
    using chained_bounds[OF collect_matches_chained] by fastforce
  have "fst (?xs ! i) \<le> fst (?xs ! j)" if "i < j" "j < length ?xs" for i j
  proof -
    from that have "?xs ! i \<in> set ?xs" by simp
    with valid have "fst (?xs ! i) \<le> fst (snd (?xs ! i))" by blast
    also from sw that have "fst (snd (?xs ! i)) \<le> fst (?xs ! j)"
      by (simp add: sorted_wrt_iff_nth_less)
    finally show ?thesis .
  qed
  then have "sorted_wrt (\<lambda>a b. fst a \<le> fst b) ?xs"
    by (simp add: sorted_wrt_iff_nth_less)
  then have "sorted (map fst ?xs)"
    by (simp add: sorted_map)
  moreover have "\<forall>i j. i < j \<and> j < length ?xs \<longrightarrow> fst (snd (?xs ! i)) \<le> fst (?xs ! j)"
    using sw by (auto simp: sorted_wrt_iff_nth_less)
  ultimately show ?thesis by simp
qed




lemma found_spans_example:
  "found_spans ''Effusion, STEMI'' = [(10, 15, ''high''), (0, 8, ''moderate'')]"
  by code_simp

lemma collect_matches_example:
  "collect_matches ''Effusion, STEMI'' = [(0, 8, ''moderate''), (10, 15, ''high'')]"
  by (simp add: collect_matches_def found_spans_example)

theorem collect_matches_non_overlapping_witness:
  "collect_matches ''Effusion, STEMI'' = [(0, 8, ''moderate''), (10, 15, ''high'')]
   \<and> sorted (map fst (collect_matches ''Effusion, STEMI''))
   \<and> fst (snd (collect_matches ''Effusion, STEMI'' ! 0))
       \<le> fst (collect_matches ''Effusion, STEMI'' ! 1)"
  using collect_matches_non_overlapping [of "''Effusion, STEMI''"]
  by (simp add: collect_matches_example)


section \<open>Properties of the segmenter\<close>

text \<open>
  Claim C6 at the input \<^verbatim>\<open>See note. A\<close>, when NLTK's tokenizer raises: the regex path keeps
  the fragment of one character, which the filter of the primary path would drop.
\<close>

theorem split_sentences_fallback_keeps_short_fragment:
  "split_sentences (\<lambda>_. None) ''See note. A'' = [''See note.'', ''A'']"
  by code_simp

section \<open>Properties of the risk tagger\<close>







lemma dict_set_keys:
  "fst ` set (dict_set d k v) = insert k (fst ` set d)"
  by (induction d k v rule: dict_set.induct) auto

lemma dict_set_distinct:
  "distinct (map fst d) \<Longrightarrow> distinct (map fst (dict_set d k v))"
proof (induction d k v rule: dict_set.induct)
  case (2 k' v' kvs k v)
  then show ?case by (auto simp: dict_set_keys)
qed simp

lemma dict_set_items:
  "kv \<in> set (dict_set d k v) \<Longrightarrow> kv = (k, v) \<or> kv \<in> set d"
  by (induction d k v rule: dict_set.induct) (auto split: if_splits)

lemma scores_invariant:
  fixes f :: "string \<Rightarrow> real"
  assumes "distinct (map fst d)" and "\<forall>kv \<in> set d. snd kv = f (fst kv)"
  shows "distinct (map fst (foldl (\<lambda>probs l. dict_set probs l (f l)) d ls))
       \<and> (\<forall>kv \<in> set (foldl (\<lambda>probs l. dict_set probs l (f l)) d ls). snd kv = f (fst kv))
       \<and> set (map fst (foldl (\<lambda>probs l. dict_set probs l (f l)) d ls)) = set (map fst d) \<union> set ls"
  using assms
proof (induction ls arbitrary: d)
  case Nil
  then show ?case by simp
next
  case (Cons l ls)
  have d1: "distinct (map fst (dict_set d l (f l)))"
    using Cons.prems(1) by (rule dict_set_distinct)
  have d2: "\<forall>kv \<in> set (dict_set d l (f l)). snd kv = f (fst kv)"
    using Cons.prems(2) dict_set_items[of _ d l "f l"] by fastforce
  have keys: "set (map fst (dict_set d l (f l))) \<union> set ls = set (map fst d) \<union> set (l # ls)"
    by (auto simp: dict_set_keys)
  from Cons.IH[OF d1 d2] keys show ?case by simp
qed

lemma entail_scores_props:
  "distinct (map fst (entail_scores e ls text))"
  "\<forall>kv \<in> set (entail_scores e ls text). snd kv = e (take 2000 text) (hypothesis (fst kv))"
  "set (map fst (entail_scores e ls text)) = set ls"
  using scores_invariant[of "[]" "\<lambda>l. e (take 2000 text) (hypothesis l)" ls]
  by (simp_all add: entail_scores_def)

lemma normalize_keys: "map fst (normalize d) = map fst d"
  by (simp add: normalize_def Let_def case_prod_unfold comp_def)

lemma sum_list_div:
  fixes d :: "(string \<times> real) list"
  shows "sum_list (map (\<lambda>kv. snd kv / s) d) = sum_list (map snd d) / s"
  by (induction d) (simp_all add: add_divide_distrib)

lemma normalize_props:
  assumes nonneg: "\<forall>kv \<in> set d. 0 \<le> snd kv" and pos: "0 < sum_list (map snd d)"
  shows "sum_list (map snd (normalize d)) = 1"
    and "\<forall>kv \<in> set (normalize d). 0 \<le> snd kv \<and> snd kv \<le> 1"
proof -
  let ?s = "sum_list (map snd d)"
  have n: "normalize d = map (\<lambda>kv. (fst kv, snd kv / ?s)) d"
    using pos by (simp add: normalize_def Let_def case_prod_unfold)
  have "sum_list (map snd (normalize d)) = sum_list (map (\<lambda>kv. snd kv / ?s) d)"
    by (simp add: n comp_def)
  also have "\<dots> = ?s / ?s" by (rule sum_list_div)
  also have "\<dots> = 1" using pos by simp
  finally show "sum_list (map snd (normalize d)) = 1" .
  have le: "snd kv \<le> ?s" if "kv \<in> set d" for kv
  proof -
    have "\<forall>x \<in> set (map snd d). 0 \<le> x" using nonneg by auto
    moreover have "snd kv \<in> set (map snd d)" using that by simp
    ultimately show ?thesis using member_le_sum_list by blast
  qed
  show "\<forall>kv \<in> set (normalize d). 0 \<le> snd kv \<and> snd kv \<le> 1"
    using nonneg pos le by (auto simp: n)
qed

lemma dict_get_absent:
  "k \<notin> set (map fst d) \<Longrightarrow> dict_get d k x = x"
  by (induction d k x rule: dict_get.induct) auto

lemma dict_get_bounds:
  fixes d :: "(string \<times> real) list"
  assumes "\<forall>kv \<in> set d. 0 \<le> snd kv \<and> snd kv \<le> 1"
  shows "0 \<le> dict_get d k 0 \<and> dict_get d k 0 \<le> 1"
  using assms by (induction d k "0::real" rule: dict_get.induct) auto

lemma dict_get_sum:
  fixes d :: "(string \<times> real) list"
  assumes "distinct (map fst d)" and "finite K" and "set (map fst d) \<subseteq> K"
  shows "(\<Sum>k \<in> K. dict_get d k 0) = sum_list (map snd d)"
  using assms
proof (induction d)
  case Nil
  then show ?case by simp
next
  case (Cons kv d)
  obtain k v where kv: "kv = (k, v)" by (cases kv)
  from Cons.prems kv have kK: "k \<in> K" and knot: "k \<notin> set (map fst d)"
    and dd: "distinct (map fst d)" and sub: "set (map fst d) \<subseteq> K"
    by auto
  have ih: "(\<Sum>x \<in> K. dict_get d x 0) = sum_list (map snd d)"
    using Cons.IH[OF dd Cons.prems(2) sub] .
  have zero: "dict_get d k 0 = 0" using knot by (rule dict_get_absent)
  have "(\<Sum>x \<in> K. dict_get (kv # d) x 0)
        = (\<Sum>x \<in> K. (if x = k then v else 0) + (if x = k then 0 else dict_get d x 0))"
    by (rule sum.cong) (auto simp: kv)
  also have "\<dots> = (\<Sum>x \<in> K. if x = k then v else 0) + (\<Sum>x \<in> K. if x = k then 0 else dict_get d x 0)"
    by (rule sum.distrib)
  also have "(\<Sum>x \<in> K. if x = k then v else 0) = v"
    using kK Cons.prems(2) by simp
  also have "(\<Sum>x \<in> K. if x = k then 0 else dict_get d x 0) = (\<Sum>x \<in> K. dict_get d x 0)"
    by (rule sum.cong) (auto simp: zero)
  finally show ?case using ih kv by simp
qed

lemma fuse_props:
  assumes order: "\<forall>ks. distinct ks \<longrightarrow> distinct (set_iter ks) \<and> set (set_iter ks) = set ks"
      and dp: "distinct (map fst probs)" and db: "distinct (map fst base)"
      and sp: "sum_list (map snd probs) = 1" and sb: "sum_list (map snd base) = 1"
      and bp: "\<forall>kv \<in> set probs. 0 \<le> snd kv \<and> snd kv \<le> 1"
      and bb: "\<forall>kv \<in> set base. 0 \<le> snd kv \<and> snd kv \<le> 1"
  shows "sum_list (map snd (fuse set_iter probs base)) = 1"
    and "\<forall>kv \<in> set (fuse set_iter probs base). 0 \<le> snd kv \<and> snd kv \<le> 1"
    and "base \<noteq> [] \<Longrightarrow> fuse set_iter probs base \<noteq> []"
proof -
  let ?ks = "set_iter (remdups (map fst probs @ map fst base))"
  have dk: "distinct ?ks" and sk: "set ?ks = set (map fst probs) \<union> set (map fst base)"
    using order[rule_format, of "remdups (map fst probs @ map fst base)"] by auto
  have "sum_list (map snd (fuse set_iter probs base))
        = sum_list (map (\<lambda>k. 7 / 10 * dict_get probs k 0 + 3 / 10 * dict_get base k 0) ?ks)"
    by (simp add: fuse_def comp_def)
  also have "\<dots> = (\<Sum>k \<in> set ?ks. 7 / 10 * dict_get probs k 0 + 3 / 10 * dict_get base k 0)"
    using dk by (simp add: sum_list_distinct_conv_sum_set)
  also have "\<dots> = 7 / 10 * (\<Sum>k \<in> set ?ks. dict_get probs k 0) + 3 / 10 * (\<Sum>k \<in> set ?ks. dict_get base k 0)"
    by (simp add: sum.distrib sum_distrib_left)
  also have "(\<Sum>k \<in> set ?ks. dict_get probs k 0) = sum_list (map snd probs)"
    using dp sk by (intro dict_get_sum) auto
  also have "(\<Sum>k \<in> set ?ks. dict_get base k 0) = sum_list (map snd base)"
    using db sk by (intro dict_get_sum) auto
  finally show "sum_list (map snd (fuse set_iter probs base)) = 1"
    using sp sb by simp
  show "\<forall>kv \<in> set (fuse set_iter probs base). 0 \<le> snd kv \<and> snd kv \<le> 1"
  proof
    fix kv assume "kv \<in> set (fuse set_iter probs base)"
    then obtain k where kv: "kv = (k, 7 / 10 * dict_get probs k 0 + 3 / 10 * dict_get base k 0)"
      by (auto simp: fuse_def)
    from dict_get_bounds[OF bp, of k] dict_get_bounds[OF bb, of k]
    show "0 \<le> snd kv \<and> snd kv \<le> 1" unfolding kv by simp
  qed
  show "fuse set_iter probs base \<noteq> []" if "base \<noteq> []"
  proof -
    from that have "set (map fst base) \<noteq> {}" by simp
    with sk have "?ks \<noteq> []" by auto
    then show ?thesis by (simp add: fuse_def)
  qed
qed

lemma heuristic_score_props:
  "sum_list (map snd (heuristic_score text)) = 1"
  "\<forall>kv \<in> set (heuristic_score text). 0 \<le> snd kv \<and> snd kv \<le> 1"
  "distinct (map fst (heuristic_score text))"
  "heuristic_score text \<noteq> []"
  by (simp_all add: heuristic_score_def Let_def)

lemma max_item_total: "probs \<noteq> [] \<Longrightarrow> \<exists>best. max_item probs = Inr best"
  by (cases probs) auto



lemma entail_scores_normalized:
  assumes nonneg: "\<forall>l \<in> set ls. 0 \<le> e (take 2000 t) (hypothesis l)"
      and pos: "\<exists>l \<in> set ls. 0 < e (take 2000 t) (hypothesis l)"
  shows "sum_list (map snd (normalize (entail_scores e ls t))) = 1"
    and "\<forall>kv \<in> set (normalize (entail_scores e ls t)). 0 \<le> snd kv \<and> snd kv \<le> 1"
    and "normalize (entail_scores e ls t) \<noteq> []"
    and "distinct (map fst (normalize (entail_scores e ls t)))"
proof -
  let ?d = "entail_scores e ls t"
  note p = entail_scores_props[of e ls t]
  have keys: "fst kv \<in> set ls" if "kv \<in> set ?d" for kv
    using that p(3) by force
  have nn: "\<forall>kv \<in> set ?d. 0 \<le> snd kv"
    using p(2) nonneg keys by auto
  from pos obtain l where l: "l \<in> set ls" "0 < e (take 2000 t) (hypothesis l)" by blast
  with p(3) obtain kv where kv: "kv \<in> set ?d" "fst kv = l" by force
  with p(2) l have kvpos: "0 < snd kv" by auto
  have "snd kv \<le> sum_list (map snd ?d)"
  proof -
    have "\<forall>x \<in> set (map snd ?d). 0 \<le> x" using nn by auto
    moreover have "snd kv \<in> set (map snd ?d)" using kv(1) by simp
    ultimately show ?thesis using member_le_sum_list by blast
  qed
  with kvpos have spos: "0 < sum_list (map snd ?d)" by simp
  from normalize_props[OF nn spos]
  show "sum_list (map snd (normalize ?d)) = 1"
    and "\<forall>kv \<in> set (normalize ?d). 0 \<le> snd kv \<and> snd kv \<le> 1" by simp_all
  from kv(1) have "?d \<noteq> []" by auto
  then have "map fst (normalize ?d) \<noteq> []" by (simp add: normalize_keys)
  then show "normalize ?d \<noteq> []" by auto
  show "distinct (map fst (normalize ?d))" using p(1) by (simp add: normalize_keys)
qed

text \<open>
  Claim C4, as the code has it, in exact arithmetic. Let Python iterate over a set in any
  order, and let the entailment scores of the configured labels, when a model is loaded, be
  non-negative and not all zero. Then \<^verbatim>\<open>tag\<close> returns, every value of its distribution lies
  between 0 and 1, and the values sum to 1: in all four combinations of heuristics on or off
  and model loaded or not.
\<close>

theorem tag_distribution:
  assumes order: "\<forall>ks. distinct ks \<longrightarrow> distinct (set_iter ks) \<and> set (set_iter ks) = set ks"
      and scores: "\<forall>e. nli T = Some e \<longrightarrow>
             (\<forall>l \<in> set (labels (risk_cfg T)). 0 \<le> e (take 2000 text) (hypothesis l))
           \<and> (\<exists>l \<in> set (labels (risk_cfg T)). 0 < e (take 2000 text) (hypothesis l))"
  shows "\<exists>label final meta. tag T set_iter text = Inr (label, final, meta)
           \<and> list_all (\<lambda>kv. 0 \<le> snd kv \<and> snd kv \<le> 1) final
           \<and> sum_list (map snd final) = 1"
proof -
  let ?c = "risk_cfg T"
  let ?meta = "[(''model'', if nli T \<noteq> None then risk_model_name ?c else ''heuristics-only''),
                (''heuristics'', if use_heuristics ?c then ''True'' else ''False''),
                (''labels'', str_join '','' (labels ?c))]"
  note hs = heuristic_score_props[of "text"]
  have "final_probs T set_iter text \<noteq> []
          \<and> (\<forall>kv \<in> set (final_probs T set_iter text). 0 \<le> snd kv \<and> snd kv \<le> 1)
          \<and> sum_list (map snd (final_probs T set_iter text)) = 1"
  proof (cases "nli T")
    case None
    show ?thesis
    proof (cases "use_heuristics ?c")
      case True
      have "final_probs T set_iter text = heuristic_score text"
        using None True hs(4) by (simp add: final_probs_def Let_def)
      with hs show ?thesis by simp
    next
      case False
      have "final_probs T set_iter text = [(''low risk'', 1)]"
        using None False by (simp add: final_probs_def Let_def)
      then show ?thesis by simp
    qed
  next
    case (Some e)
    let ?n = "normalize (entail_scores e (labels ?c) text)"
    from scores Some have
      nonneg: "\<forall>l \<in> set (labels ?c). 0 \<le> e (take 2000 text) (hypothesis l)"
      and pos: "\<exists>l \<in> set (labels ?c). 0 < e (take 2000 text) (hypothesis l)" by auto
    note n = entail_scores_normalized[where ls = "labels ?c" and e = e and t = "text", OF nonneg pos]
    show ?thesis
    proof (cases "use_heuristics ?c")
      case True
      let ?f = "fuse set_iter ?n (heuristic_score text)"
      note f = fuse_props[OF order n(4) hs(3) n(1) hs(1) n(2) hs(2)]
      have "final_probs T set_iter text = ?f"
        using Some True hs(4) by (simp add: final_probs_def Let_def)
      with f(1) f(2) f(3)[OF hs(4)] show ?thesis by simp
    next
      case False
      have "final_probs T set_iter text = ?n"
        using Some False by (simp add: final_probs_def Let_def)
      with n(1) n(2) n(3) show ?thesis by simp
    qed
  qed
  then have fin: "final_probs T set_iter text \<noteq> []"
      "\<forall>kv \<in> set (final_probs T set_iter text). 0 \<le> snd kv \<and> snd kv \<le> 1"
      "sum_list (map snd (final_probs T set_iter text)) = 1"
    by simp_all
  from max_item_total[OF fin(1)] obtain best
    where "max_item (final_probs T set_iter text) = Inr best" by blast
  then have "tag T set_iter text
      = Inr (choose_label ?c (final_probs T set_iter text) (fst best),
             final_probs T set_iter text, ?meta)"
    by (simp add: tag_def Let_def)
  with fin(2) fin(3) show ?thesis by (auto simp: list_all_iff)
qed

lemma strip_labels:
  "str_strip ''low risk'' = ''low risk''"
  "str_strip ''moderate risk'' = ''moderate risk''"
  "str_strip ''high risk'' = ''high risk''"
  by code_simp+

lemma default_risk_config:
  "risk_config (default_settings ''#'')
     = \<lparr> risk_model_name = ''facebook/bart-large-mnli'',
         labels = [''low risk'', ''moderate risk'', ''high risk''],
         th_high = 64 / 100, th_mod = 42 / 100, use_heuristics = True \<rparr>"
  by (simp add: risk_config_def default_settings_def strip_labels)

lemma hemorrhage_example:
  "any_pattern ''high'' (str_lower ''Acute subarachnoid hemorrhage'')"
  by code_simp

lemma no_keyword_example:
  "\<not> any_pattern ''high'' (str_lower ''ok'')" "\<not> any_pattern ''moderate'' (str_lower ''ok'')"
  by code_simp+

lemma heuristic_score_examples:
  "heuristic_score ''Acute subarachnoid hemorrhage''
     = [(''high risk'', 85 / 100), (''moderate risk'', 1 / 10), (''low risk'', 5 / 100)]"
  "heuristic_score ''ok''
     = [(''high risk'', 5 / 100), (''moderate risk'', 25 / 100), (''low risk'', 70 / 100)]"
  by (simp_all add: heuristic_score_def Let_def hemorrhage_example no_keyword_example)


theorem tag_distribution_witness:
  "tag (new_RiskTagger (default_settings ''#'') None (Some half_low)) (\<lambda>ks. ks) ''ok''
     = Inr (''low risk'',
            [(''high risk'', 19 / 100), (''moderate risk'', 1 / 4), (''low risk'', 14 / 25)],
            [(''model'', ''facebook/bart-large-mnli''), (''heuristics'', ''True''),
             (''labels'', ''low risk,moderate risk,high risk'')])
   \<and> sum_list (map snd [(''high risk'', 19 / 100 :: real), (''moderate risk'', 1 / 4), (''low risk'', 14 / 25)]) = 1"
proof -
  let ?T = "new_RiskTagger (default_settings ''#'') None (Some half_low)"
  have h1: "\<forall>ks :: string list. distinct ks \<longrightarrow> distinct ((\<lambda>ks. ks) ks) \<and> set ((\<lambda>ks. ks) ks) = set ks"
    by simp
  have h2: "\<forall>e. nli ?T = Some e \<longrightarrow>
             (\<forall>l \<in> set (labels (risk_cfg ?T)). 0 \<le> e (take 2000 ''ok'') (hypothesis l))
           \<and> (\<exists>l \<in> set (labels (risk_cfg ?T)). 0 < e (take 2000 ''ok'') (hypothesis l))"
    by (simp add: new_RiskTagger_def default_risk_config half_low_def)
  show ?thesis
    using tag_distribution [OF h1 h2]
    by (simp add: tag_def final_probs_def Let_def new_RiskTagger_def default_risk_config
        heuristic_score_examples choose_label_def entail_scores_def normalize_def fuse_def
        half_low_def hypothesis_def)
qed

text \<open>
  The claim as stated covers every configuration. When every entailment score is 0, the guard
  \<^verbatim>\<open>sum(...) or 1.0\<close> divides by 1, the model's distribution stays all zero, and the fusion
  leaves 3/10 of the prior: the values sum to 3/10.
\<close>

theorem tag_distribution_counterexample:
  "tag (new_RiskTagger (default_settings ''#'') None (Some (\<lambda>premise hyp. 0))) (\<lambda>ks. ks) ''ok''
     = Inr (''low risk'',
            [(''high risk'', 3 / 200), (''moderate risk'', 3 / 40), (''low risk'', 21 / 100)],
            [(''model'', ''facebook/bart-large-mnli''), (''heuristics'', ''True''),
             (''labels'', ''low risk,moderate risk,high risk'')])
   \<and> sum_list (map snd [(''high risk'', 3 / 200 :: real), (''moderate risk'', 3 / 40), (''low risk'', 21 / 100)])
       = 3 / 10
   \<and> \<not> \<bar>3 / 10 - 1 :: real\<bar> \<le> 1 / 1000000"
  by (simp add: tag_def final_probs_def Let_def new_RiskTagger_def default_risk_config
      heuristic_score_examples choose_label_def entail_scores_def normalize_def fuse_def)

section \<open>Properties of the anonymizer\<close>

lemma sha256_test_vector:
  "sha256_hexdigest ''abc'' = ''ba7816bf8f01cfea414140de5dae2223b00361a396177a9cb410ff61f20015ad''"
  by code_simp

lemma replace_cong:
  assumes "hash_salt c1 = hash_salt c2"
      and "strategy = ''hash'' \<or> mask_char c1 = mask_char c2"
  shows "replace c1 t p strategy = replace c2 t p strategy"
proof -
  have "(\<lambda>token. if strategy = ''hash'' then hash_token c1 token else mask_token c1 token)
        = (\<lambda>token. if strategy = ''hash'' then hash_token c2 token else mask_token c2 token)"
    using assms by (auto simp: hash_token_def mask_token_def fun_eq_iff)
  then show ?thesis by (simp add: replace_def)
qed

lemma anonymize_pass_cong:
  assumes "hash_salt c1 = hash_salt c2" and "keep_dates c1 = keep_dates c2"
      and "strategy = ''hash'' \<or> mask_char c1 = mask_char c2"
  shows "anonymize_pass c1 strategy st p = anonymize_pass c2 strategy st p"
  using assms(2) replace_cong[OF assms(1) assms(3)]
  by (simp add: anonymize_pass_def Let_def)

text \<open>
  Claim C8. The result of \<^verbatim>\<open>anonymize\<close> is a function of the text and of the anonymizer's part of
  the configuration: two configurations with the same secret, strategy and flags (and the same
  mask, unless the strategy is the hash) give, on the same text, the same redacted text and the
  same counts, whatever else differs between them; and the replacement of a token under the hash
  strategy is a function of the secret and the token.
\<close>

theorem anonymize_deterministic:
  assumes "hash_salt c1 = hash_salt c2"
      and "anonymize_strategy c1 = anonymize_strategy c2"
      and "keep_dates c1 = keep_dates c2"
      and "reduce_whitespace c1 = reduce_whitespace c2"
      and "str_strip (str_lower (anonymize_strategy c1)) = ''hash'' \<or> mask_char c1 = mask_char c2"
  shows "anonymize c1 t = anonymize c2 t \<and> hash_token c1 token = hash_token c2 token"
proof -
  let ?s = "str_strip (str_lower (anonymize_strategy c1))"
  have "anonymize_pass c1 ?s = anonymize_pass c2 ?s"
    using anonymize_pass_cong[OF assms(1) assms(3) assms(5)] by (simp add: fun_eq_iff)
  then have "anonymize c1 t = anonymize c2 t"
    using assms(2) assms(4) by (simp add: anonymize_def Let_def)
  moreover have "hash_token c1 token = hash_token c2 token"
    using assms(1) by (simp add: hash_token_def)
  ultimately show ?thesis by simp
qed

lemma hash_strategy_normal: "str_strip (str_lower ''hash'') = ''hash''"
  by code_simp

theorem anonymize_deterministic_witness:
  "hash_salt (default_settings ''#'') = hash_salt ((default_settings ''*'')\<lparr>seed := 7, api_port := 9000\<rparr>)
   \<and> seed (default_settings ''#'') \<noteq> seed ((default_settings ''*'')\<lparr>seed := 7, api_port := 9000\<rparr>)
   \<and> mask_char (default_settings ''#'') \<noteq> mask_char ((default_settings ''*'')\<lparr>seed := 7, api_port := 9000\<rparr>)
   \<and> anonymize (default_settings ''#'') ''Contact a@b.com''
       = anonymize ((default_settings ''*'')\<lparr>seed := 7, api_port := 9000\<rparr>) ''Contact a@b.com''
   \<and> hash_token (default_settings ''#'') ''a@b.com''
       = hash_token ((default_settings ''*'')\<lparr>seed := 7, api_port := 9000\<rparr>) ''a@b.com''"
proof -
  let ?c1 = "default_settings ''#''"
  let ?c2 = "(default_settings ''*'')\<lparr>seed := 7, api_port := 9000\<rparr>"
  have h1: "hash_salt ?c1 = hash_salt ?c2"
    and h2: "anonymize_strategy ?c1 = anonymize_strategy ?c2"
    and h3: "keep_dates ?c1 = keep_dates ?c2"
    and h4: "reduce_whitespace ?c1 = reduce_whitespace ?c2"
    by (simp_all add: default_settings_def)
  have h5: "str_strip (str_lower (anonymize_strategy ?c1)) = ''hash'' \<or> mask_char ?c1 = mask_char ?c2"
    by (simp add: default_settings_def hash_strategy_normal)
  show ?thesis
    using h1 anonymize_deterministic [OF h1 h2 h3 h4 h5, of "''Contact a@b.com''" "''a@b.com''"]
    by (simp add: default_settings_def)
qed

lemma email_scan: "re_finditer True email_rx c1_input = [(28, 35)]" by code_simp
lemma phone_scan: "re_finditer False phone_rx c1_text1 = [(50, 63), (68, 77)]" by code_simp
lemma mrn_scan: "re_finditer True mrn_rx c1_text2 = []" by code_simp
lemma ssn_like_scan: "re_finditer False ssn_like_rx c1_text2 = []" by code_simp
lemma date_scan: "re_finditer True date_rx c1_text2 = []" by code_simp
lemma name_hint_scan: "re_finditer False name_hint_rx c1_text2 = [(0, 10)]" by code_simp
lemma address_like_scan: "re_finditer True address_like_rx c1_text3 = []" by code_simp

lemma email_digest: "take 10 (sha256_hexdigest ''mediscana@b.com'') = ''4f65672349''" by code_simp
lemma phone_digest: "take 10 (sha256_hexdigest ''mediscan 415-555-0199'') = ''c458480777''" by code_simp
lemma number_digest: "take 10 (sha256_hexdigest ''mediscan 12345678'') = ''47d81971db''" by code_simp
lemma name_digest: "take 10 (sha256_hexdigest ''mediscanPatient Mr'') = ''2e6892a5e7''" by code_simp

lemma default_strategy: "str_strip (str_lower (anonymize_strategy (default_settings mc))) = ''hash''"
  unfolding default_settings_def by code_simp

lemma email_pass: "anonymize_pass (default_settings mc) ''hash'' (c1_input, []) (''email'', True, email_rx)
           = (c1_text1, [(''email'', 1)])"
  by (simp add: anonymize_pass_def replace_def re_sub_def email_scan Let_def hash_token_def slice_def
      default_settings_def)
    (simp add: c1_input_def c1_text1_def email_digest)


lemma phone_pass: "anonymize_pass (default_settings mc) ''hash'' (c1_text1, [(''email'', 1)]) (''phone'', False, phone_rx)
           = (c1_text2, [(''email'', 1), (''phone'', 2)])"
  by (simp add: anonymize_pass_def replace_def re_sub_def phone_scan Let_def hash_token_def slice_def
      default_settings_def)
    (simp add: c1_text1_def c1_text2_def phone_digest number_digest)

lemma mrn_pass: "anonymize_pass (default_settings mc) ''hash'' (c1_text2, cs) (''mrn'', True, mrn_rx) = (c1_text2, cs)"
  by (simp add: anonymize_pass_def replace_def re_sub_def mrn_scan Let_def)

lemma ssn_like_pass: "anonymize_pass (default_settings mc) ''hash'' (c1_text2, cs) (''ssn_like'', False, ssn_like_rx) = (c1_text2, cs)"
  by (simp add: anonymize_pass_def replace_def re_sub_def ssn_like_scan Let_def)

lemma date_pass: "anonymize_pass (default_settings mc) ''hash'' (c1_text2, cs) (''date'', True, date_rx) = (c1_text2, cs)"
  by (simp add: anonymize_pass_def replace_def re_sub_def date_scan Let_def default_settings_def)

lemma name_hint_pass: "anonymize_pass (default_settings mc) ''hash'' (c1_text2, [(''email'', 1), (''phone'', 2)]) (''name_hint'', False, name_hint_rx)
           = (c1_text3, [(''email'', 1), (''phone'', 2), (''name_hint'', 1)])"
  by (simp add: anonymize_pass_def replace_def re_sub_def name_hint_scan Let_def hash_token_def slice_def
      default_settings_def)
    (simp add: c1_text2_def c1_text3_def name_digest)

lemma address_like_pass: "anonymize_pass (default_settings mc) ''hash'' (c1_text3, cs) (''address_like'', True, address_like_rx) = (c1_text3, cs)"
  by (simp add: anonymize_pass_def replace_def re_sub_def address_like_scan Let_def)

lemma blanks_unchanged: "re_sub False blanks_rx (\<lambda>_. '' '') c1_text3 = c1_text3"
  by code_simp

lemma line_breaks_unchanged: "re_sub False line_break_rx (\<lambda>_. [CHR 0x0A]) c1_text3 = c1_text3"
  by code_simp

lemma strip_unchanged: "str_strip c1_text3 = c1_text3"
  by code_simp

lemma claim_output_clean:
  "\<not> str_contains ''a@b.com'' c1_text3" "\<not> str_contains ''415-555-0199'' c1_text3"
  by code_simp+

text \<open>
  Claim C1 at its input, under the default configuration. The phone pattern matches the digits
  after \<open>MRN\<close> as well as the phone number, each with the space before it, so the phone count
  is 2; after that pass no digits are left for the MRN pattern, and the counts have no entry for
  \<open>mrn\<close>. The email count is 1, and neither the email address nor the phone number occurs in
  the output.
\<close>

theorem anonymize_claim_input:
  "anonymize (default_settings mc)
     ''Patient Mr. John Doe, email a@b.com, phone 415-555-0199. MRN 12345678.''
   = (''<ID:2e6892a5e7>. John Doe, email <ID:4f65672349>, phone<ID:c458480777>. MRN<ID:47d81971db>.'',
      [(''email'', 1), (''phone'', 2), (''name_hint'', 1)])
   \<and> dict_get [(''email'', 1), (''phone'', 2), (''name_hint'', 1 :: nat)] ''mrn'' 0 = 0
   \<and> \<not> str_contains ''a@b.com''
         ''<ID:2e6892a5e7>. John Doe, email <ID:4f65672349>, phone<ID:c458480777>. MRN<ID:47d81971db>.''
   \<and> \<not> str_contains ''415-555-0199''
         ''<ID:2e6892a5e7>. John Doe, email <ID:4f65672349>, phone<ID:c458480777>. MRN<ID:47d81971db>.''"
proof -
  have "foldl (anonymize_pass (default_settings mc) ''hash'') (c1_input, []) PATTERNS
        = (c1_text3, [(''email'', 1), (''phone'', 2), (''name_hint'', 1)])"
    by (simp only: PATTERNS_def foldl_Cons foldl_Nil email_pass phone_pass mrn_pass ssn_like_pass
        date_pass name_hint_pass address_like_pass)
  moreover have "reduce_whitespace (default_settings mc)"
    by (simp add: default_settings_def)
  ultimately have "anonymize (default_settings mc) c1_input
        = (c1_text3, [(''email'', 1), (''phone'', 2), (''name_hint'', 1)])"
    by (simp add: anonymize_def default_strategy blanks_unchanged line_breaks_unchanged
        strip_unchanged Let_def)
  then show ?thesis
    using claim_output_clean by (simp add: c1_input_def c1_text3_def)
qed

end
